theory Spec2Isabelle
  imports
    Complex_Main
    "HOL-Library.Char_ord"
    "HOL-Library.List_Lexorder"
    "HOL-Library.Multiset"
begin

section \<open>Python values, errors and library functions\<close>

text \<open>
  The report generator \<^verbatim>\<open>bench/generate_report.py\<close> and the suite runner
  \<^verbatim>\<open>bench/python_bench.py\<close> are embedded as HOL functions. Timings are Python floats in
  the source; here they are real numbers, so every arithmetic step is exact (no binary
  rounding, no overflow to infinity, no NaN). Strings are \<open>char list\<close> ordered
  lexicographically by character code, which is how Python orders \<^verbatim>\<open>str\<close>. A raised
  exception is the \<open>Inl\<close> branch of a sum.
\<close>

datatype py_error =
    ValueError
  | TypeError
  | StatisticsError
  | StopIteration
  | ZeroDivisionError
  | IndexError

text \<open>A \<^verbatim>\<open>for\<close> loop that builds a list and stops at the first exception.\<close>

fun map_result :: "('a \<Rightarrow> 'e + 'b) \<Rightarrow> 'a list \<Rightarrow> 'e + 'b list" where
  "map_result f [] = Inr []"
| "map_result f (x # xs) =
     (case f x of
        Inl e \<Rightarrow> Inl e
      | Inr y \<Rightarrow> (case map_result f xs of Inl e \<Rightarrow> Inl e | Inr ys \<Rightarrow> Inr (y # ys)))"

text \<open>
  The builtins \<^verbatim>\<open>min(iterable, key=...)\<close> and \<^verbatim>\<open>max(iterable, key=...)\<close>: one pass that
  keeps the first extremal element, \<^verbatim>\<open>ValueError\<close> on an empty iterable.
\<close>

fun py_min_key :: "('a \<Rightarrow> real) \<Rightarrow> 'a list \<Rightarrow> py_error + 'a" where
  "py_min_key key [] = Inl ValueError"
| "py_min_key key (x # xs) =
     Inr (foldl (\<lambda>best y. if key y < key best then y else best) x xs)"

fun py_max_key :: "('a \<Rightarrow> real) \<Rightarrow> 'a list \<Rightarrow> py_error + 'a" where
  "py_max_key key [] = Inl ValueError"
| "py_max_key key (x # xs) =
     Inr (foldl (\<lambda>best y. if key best < key y then y else best) x xs)"

definition py_min :: "real list \<Rightarrow> py_error + real" where
  "py_min xs = py_min_key (\<lambda>x. x) xs"

definition py_max :: "real list \<Rightarrow> py_error + real" where
  "py_max xs = py_max_key (\<lambda>x. x) xs"

text \<open>The builtin \<^verbatim>\<open>next\<close> on a generator: its first item, \<^verbatim>\<open>StopIteration\<close> when it has none.\<close>

fun py_next :: "'a list \<Rightarrow> py_error + 'a" where
  "py_next [] = Inl StopIteration"
| "py_next (x # xs) = Inr x"

text \<open>The true division \<^verbatim>\<open>a / b\<close> of two numbers.\<close>

definition py_truediv :: "real \<Rightarrow> real \<Rightarrow> py_error + real" where
  "py_truediv a b = (if b = 0 then Inl ZeroDivisionError else Inr (a / b))"

text \<open>
  \<^verbatim>\<open>round(x, 2)\<close>: the nearest multiple of one hundredth, an exact tie going to the even
  neighbour.
\<close>

definition round_half_even :: "real \<Rightarrow> int" where
  "round_half_even y =
     (let f = \<lfloor>y\<rfloor>; d = y - of_int f
      in if d < 1 / 2 then f
         else if 1 / 2 < d then f + 1
         else if even f then f else f + 1)"

definition py_round2 :: "real \<Rightarrow> real" where
  "py_round2 x = of_int (round_half_even (x * 100)) / 100"

text \<open>
  \<^verbatim>\<open>statistics.median\<close>, \<^verbatim>\<open>statistics.mean\<close> and \<^verbatim>\<open>statistics.stdev\<close> of the standard
  library, each raising \<^verbatim>\<open>StatisticsError\<close> when it has too few data points.
\<close>

definition py_median :: "real list \<Rightarrow> py_error + real" where
  "py_median xs =
     (let data = sort xs; n = length data
      in if n = 0 then Inl StatisticsError
         else if n mod 2 = 1 then Inr (data ! (n div 2))
         else (let i = n div 2 in Inr ((data ! (i - 1) + data ! i) / 2)))"

definition py_mean :: "real list \<Rightarrow> py_error + real" where
  "py_mean xs =
     (if length xs < 1 then Inl StatisticsError
      else Inr (sum_list xs / of_nat (length xs)))"

definition py_stdev :: "real list \<Rightarrow> py_error + real" where
  "py_stdev xs =
     (if length xs < 2 then Inl StatisticsError
      else (let xbar = sum_list xs / of_nat (length xs);
                ss = sum_list (map (\<lambda>x. (x - xbar)\<^sup>2) xs)
            in Inr (sqrt (ss / of_nat (length xs - 1)))))"

section \<open>Loading the result store\<close>

text \<open>
  \<^verbatim>\<open>load_csv\<close> reads the file through \<^verbatim>\<open>csv.DictReader\<close>. The model starts after the
  reader has split the text: a data line is its list of fields, and the header is
  \<^verbatim>\<open>benchmark,language,time_ms\<close> as the run script writes it. \<^verbatim>\<open>DictReader\<close> gives a
  field the header names but the line lacks the value \<^verbatim>\<open>None\<close>, keeps surplus fields
  under a key of their own, and skips a line with no field at all.
\<close>

type_synonym csv_line = "string list"

record result_row =
  benchmark :: string
  language :: string
  time_ms :: real

text \<open>
  \<^verbatim>\<open>float(s)\<close> on the decimal notation the result store uses: an optional sign, digits,
  and an optional fractional part (at least one digit overall). Anything else is
  \<^verbatim>\<open>ValueError\<close> here; Python also reads exponents, padding blanks, underscores and the
  words \<^verbatim>\<open>inf\<close> and \<^verbatim>\<open>nan\<close>, which are outside this model.
\<close>

definition is_digit :: "char \<Rightarrow> bool" where
  "is_digit c = (CHR ''0'' \<le> c \<and> c \<le> CHR ''9'')"

definition digit_val :: "char \<Rightarrow> nat" where
  "digit_val c = of_char c - 48"

definition digits_val :: "string \<Rightarrow> nat" where
  "digits_val ds = foldl (\<lambda>acc c. 10 * acc + digit_val c) 0 ds"

definition unsigned_float :: "string \<Rightarrow> real option" where
  "unsigned_float s =
     (let ip = takeWhile is_digit s; rest = dropWhile is_digit s
      in case rest of
           [] \<Rightarrow> (if ip = [] then None else Some (of_nat (digits_val ip)))
         | c # fp \<Rightarrow>
             (if c = CHR ''.'' \<and> list_all is_digit fp \<and> (ip \<noteq> [] \<or> fp \<noteq> [])
              then Some (of_nat (digits_val ip) + of_nat (digits_val fp) / 10 ^ length fp)
              else None))"

definition py_float :: "string \<Rightarrow> py_error + real" where
  "py_float s =
     (case s of
        [] \<Rightarrow> Inl ValueError
      | c # cs \<Rightarrow>
          (if c = CHR ''-'' then
             (case unsigned_float cs of None \<Rightarrow> Inl ValueError | Some x \<Rightarrow> Inr (- x))
           else if c = CHR ''+'' then
             (case unsigned_float cs of None \<Rightarrow> Inl ValueError | Some x \<Rightarrow> Inr x)
           else
             (case unsigned_float s of None \<Rightarrow> Inl ValueError | Some x \<Rightarrow> Inr x)))"

text \<open>
  The loop of \<^verbatim>\<open>load_csv\<close>. A line with one or two fields has \<^verbatim>\<open>time_ms = None\<close>, which
  differs from the marker, so \<^verbatim>\<open>float(None)\<close> raises \<^verbatim>\<open>TypeError\<close>.
\<close>

fun load_csv :: "csv_line list \<Rightarrow> py_error + result_row list" where
  "load_csv [] = Inr []"
| "load_csv (fs # rest) =
     (case fs of
        [] \<Rightarrow> load_csv rest
      | b # l # t # extra \<Rightarrow>
          (if t \<noteq> ''ERROR'' then
             (case py_float t of
                Inl e \<Rightarrow> Inl e
              | Inr x \<Rightarrow>
                  (case load_csv rest of
                     Inl e \<Rightarrow> Inl e
                   | Inr rows \<Rightarrow> Inr (\<lparr>benchmark = b, language = l, time_ms = x\<rparr> # rows)))
           else load_csv rest)
      | _ \<Rightarrow> Inl TypeError)"

section \<open>Aggregation\<close>

record language_stats =
  median :: real
  mean :: real
  min_ms :: real
  max_ms :: real
  stdev :: real
  runs :: nat

text \<open>
  A \<^verbatim>\<open>dict\<close> is an association list in insertion order with distinct keys.
  \<open>dd_update k d f\<close> is the access \<^verbatim>\<open>m[k]\<close> on a \<^verbatim>\<open>defaultdict\<close> followed by an in-place
  change \<open>f\<close> of the value: a missing key is first inserted, at the end, with the
  default \<open>d\<close>.
\<close>

fun dd_update :: "'k \<Rightarrow> 'v \<Rightarrow> ('v \<Rightarrow> 'v) \<Rightarrow> ('k \<times> 'v) list \<Rightarrow> ('k \<times> 'v) list" where
  "dd_update k d f [] = [(k, f d)]"
| "dd_update k d f ((k', v) # kvs) =
     (if k' = k then (k', f v) # kvs else (k', v) # dd_update k d f kvs)"

type_synonym grouped_times = "(string \<times> (string \<times> real list) list) list"

definition grouped_add :: "grouped_times \<Rightarrow> result_row \<Rightarrow> grouped_times" where
  "grouped_add g row =
     dd_update (benchmark row) [] (dd_update (language row) [] (\<lambda>ts. ts @ [time_ms row])) g"

definition grouped :: "result_row list \<Rightarrow> grouped_times" where
  "grouped rows = foldl grouped_add [] rows"

definition stats_of_times :: "real list \<Rightarrow> py_error + language_stats" where
  "stats_of_times ts =
     (case py_median ts of Inl e \<Rightarrow> Inl e | Inr med \<Rightarrow>
     (case py_mean ts of Inl e \<Rightarrow> Inl e | Inr mu \<Rightarrow>
     (case py_min ts of Inl e \<Rightarrow> Inl e | Inr lo \<Rightarrow>
     (case py_max ts of Inl e \<Rightarrow> Inl e | Inr hi \<Rightarrow>
     (case (if 1 < length ts
            then (case py_stdev ts of Inl e \<Rightarrow> Inl e | Inr sd \<Rightarrow> Inr (py_round2 sd))
            else Inr 0) of Inl e \<Rightarrow> Inl e | Inr sd \<Rightarrow>
        Inr \<lparr>median = med, mean = py_round2 mu, min_ms = lo, max_ms = hi, stdev = sd,
             runs = length ts\<rparr>)))))"

type_synonym bench_data = "(string \<times> language_stats) list"
type_synonym report_data = "(string \<times> bench_data) list"

text \<open>
  \<^verbatim>\<open>sorted(d.items())\<close> orders the (key, value) pairs of a dict; its keys are distinct, so
  the order is decided on the keys. The result dicts are filled in that order.
\<close>

definition aggregate :: "result_row list \<Rightarrow> py_error + report_data" where
  "aggregate rows =
     map_result
       (\<lambda>(bench, langs).
          case map_result
                 (\<lambda>(lang, ts).
                    case stats_of_times ts of Inl e \<Rightarrow> Inl e | Inr s \<Rightarrow> Inr (lang, s))
                 (sort_key fst langs) of
            Inl e \<Rightarrow> Inl e
          | Inr stats \<Rightarrow> Inr (bench, stats))
       (sort_key fst (grouped rows))"

definition find_fastest :: "bench_data \<Rightarrow> py_error + string" where
  "find_fastest bench_data =
     (case py_min_key (\<lambda>(lang, s). median s) bench_data of
        Inl e \<Rightarrow> Inl e
      | Inr (lang, s) \<Rightarrow> Inr lang)"


section \<open>Text formatting\<close>

text \<open>\<^verbatim>\<open>str(n)\<close> of a non-negative integer.\<close>

function show_nat :: "nat \<Rightarrow> string" where
  "show_nat n =
     (if n < 10 then [''0123456789'' ! n]
      else show_nat (n div 10) @ [''0123456789'' ! (n mod 10)])"
  by pat_completeness auto
termination
  by (relation "measure (\<lambda>n. n)") auto

declare show_nat.simps [simp del]

text \<open>
  The format specification \<^verbatim>\<open>.kf\<close>: \<open>k\<close> digits after the point, the last one rounded,
  a minus sign for a negative number even when it rounds to zero.
\<close>

definition zero_pad :: "nat \<Rightarrow> string \<Rightarrow> string" where
  "zero_pad k s = replicate (k - length s) CHR ''0'' @ s"

definition format_f :: "nat \<Rightarrow> real \<Rightarrow> string" where
  "format_f k x =
     (let n = nat (round_half_even (\<bar>x\<bar> * 10 ^ k));
          ip = n div 10 ^ k;
          fp = n mod 10 ^ k
      in (if x < 0 then ''-'' else [])
         @ show_nat ip
         @ (if k = 0 then [] else ''.'' @ zero_pad k (show_nat fp)))"

text \<open>\<^verbatim>\<open>sep.join(parts)\<close>, and the alignments \<^verbatim>\<open><w\<close> and \<^verbatim>\<open>>w\<close> of a format specification.\<close>

fun py_join :: "string \<Rightarrow> string list \<Rightarrow> string" where
  "py_join sep [] = []"
| "py_join sep [p] = p"
| "py_join sep (p # q # ps) = p @ sep @ py_join sep (q # ps)"

definition ljust :: "nat \<Rightarrow> string \<Rightarrow> string" where
  "ljust w s = s @ replicate (w - length s) CHR '' ''"

definition rjust :: "nat \<Rightarrow> string \<Rightarrow> string" where
  "rjust w s = replicate (w - length s) CHR '' '' @ s"

section \<open>The Markdown report\<close>

definition all_langs_of :: "report_data \<Rightarrow> string list" where
  "all_langs_of data = sort (remdups (concat (map (\<lambda>(bench, langs). map fst langs) data)))"

text \<open>The summary table: lines 83 to 95 of \<^verbatim>\<open>generate_report.py\<close>.\<close>

definition summary_cell :: "bench_data \<Rightarrow> string \<Rightarrow> string \<Rightarrow> string" where
  "summary_cell langs fastest lang =
     (case map_of langs lang of
        Some s \<Rightarrow>
          (let val = median s;
               marker = (if lang = fastest then '' **'' else '' '');
               end_marker = (if lang = fastest then ''** '' else '' '')
           in marker @ format_f 0 val @ end_marker @ ''|'')
      | None \<Rightarrow> '' - |'')"

definition summary_row :: "string list \<Rightarrow> string \<times> bench_data \<Rightarrow> py_error + string" where
  "summary_row all_langs item =
     (case item of (bench, langs) \<Rightarrow>
        (case find_fastest langs of
           Inl e \<Rightarrow> Inl e
         | Inr fastest \<Rightarrow>
             Inr (foldl (\<lambda>row lang. row @ summary_cell langs fastest lang)
                    (''| '' @ bench @ '' |'') all_langs
                  @ '' '' @ fastest @ '' |'')))"

text \<open>
  The relative-performance table: lines 109 to 120. \<^verbatim>\<open>c_median\<close> is \<^verbatim>\<open>None\<close> when the
  group has no \<^verbatim>\<open>c\<close> entry; as a condition, \<^verbatim>\<open>c_median\<close> is false for \<^verbatim>\<open>None\<close> and for
  zero.
\<close>

definition c_median_of :: "bench_data \<Rightarrow> real option" where
  "c_median_of langs = (case map_of langs ''c'' of None \<Rightarrow> None | Some s \<Rightarrow> Some (median s))"

definition relative_cell :: "bench_data \<Rightarrow> real option \<Rightarrow> string \<Rightarrow> py_error + string" where
  "relative_cell langs c_median lang =
     (case map_of langs lang of
        None \<Rightarrow> Inr '' - |''
      | Some s \<Rightarrow>
          (case c_median of
             None \<Rightarrow> Inr ('' '' @ format_f 0 (median s) @ ''ms |'')
           | Some c \<Rightarrow>
               (if c \<noteq> 0 \<and> 0 < c then
                  (case py_truediv (median s) c of
                     Inl e \<Rightarrow> Inl e
                   | Inr ratio \<Rightarrow> Inr ('' '' @ format_f 1 ratio @ ''x |''))
                else Inr ('' '' @ format_f 0 (median s) @ ''ms |''))))"

definition relative_row :: "string list \<Rightarrow> string \<times> bench_data \<Rightarrow> py_error + string" where
  "relative_row all_langs item =
     (case item of (bench, langs) \<Rightarrow>
        (case map_result (relative_cell langs (c_median_of langs)) all_langs of
           Inl e \<Rightarrow> Inl e
         | Inr cells \<Rightarrow> Inr (foldl (\<lambda>row cell. row @ cell) (''| '' @ bench @ '' |'') cells)))"

text \<open>The detailed tables: lines 128 to 143. The keys of a dict are distinct, so walking
  \<^verbatim>\<open>sorted(langs)\<close> and reading \<^verbatim>\<open>langs[lang]\<close> visits the items in key order.\<close>

definition detail_line :: "string \<times> language_stats \<Rightarrow> string" where
  "detail_line item =
     (case item of (lang, s) \<Rightarrow>
        ''| '' @ lang @ '' | '' @ format_f 1 (median s) @ '' | '' @ format_f 1 (mean s) @ '' ''
        @ ''| '' @ format_f 1 (min_ms s) @ '' | '' @ format_f 1 (max_ms s) @ '' | ''
        @ format_f 1 (stdev s) @ '' | '' @ show_nat (runs s) @ '' |'')"

definition detail_section :: "string \<times> bench_data \<Rightarrow> string list" where
  "detail_section item =
     (case item of (bench, langs) \<Rightarrow>
        [''### '' @ bench, [],
         ''| Language | Median (ms) | Mean (ms) | Min (ms) | Max (ms) | Stdev | Runs |'',
         ''|----------|----------:|--------:|-------:|-------:|------:|-----:|'']
        @ map detail_line (sort_key fst langs)
        @ [ []])"

text \<open>The subject analysis: lines 149 to 172, the subject being \<^verbatim>\<open>lumen\<close>.\<close>

type_synonym lumen_rank = "string \<times> nat \<times> nat \<times> real \<times> string"

definition lumen_rank_of :: "string \<times> bench_data \<Rightarrow> py_error + lumen_rank option" where
  "lumen_rank_of item =
     (case item of (bench, langs) \<Rightarrow>
        (case map_of langs ''lumen'' of
           None \<Rightarrow> Inr None
         | Some lumen_stats \<Rightarrow>
             (let sorted_langs = sort_key (\<lambda>x. median (snd x)) langs
              in case py_next (map fst (filter (\<lambda>(i, name, s). name = ''lumen'')
                                          (enumerate 1 sorted_langs))) of
                   Inl e \<Rightarrow> Inl e
                 | Inr rank \<Rightarrow>
                     (let total_n = length sorted_langs;
                          lumen_median = median lumen_stats
                      in case sorted_langs of
                           [] \<Rightarrow> Inl IndexError
                         | (fastest_name, fastest_data) # others \<Rightarrow>
                             (case (if 0 < median fastest_data
                                    then py_truediv lumen_median (median fastest_data)
                                    else Inr 0) of
                                Inl e \<Rightarrow> Inl e
                              | Inr ratio \<Rightarrow>
                                  Inr (Some (bench, rank, total_n, ratio, fastest_name)))))))"

definition lumen_ranks_of :: "report_data \<Rightarrow> py_error + lumen_rank list" where
  "lumen_ranks_of data =
     (case map_result lumen_rank_of (sort_key fst data) of
        Inl e \<Rightarrow> Inl e
      | Inr entries \<Rightarrow> Inr (List.map_filter (\<lambda>x. x) entries))"

definition lumen_rank_line :: "lumen_rank \<Rightarrow> string" where
  "lumen_rank_line entry =
     (case entry of (bench, rank, total_n, ratio, fastest) \<Rightarrow>
        ''| '' @ bench @ '' | '' @ show_nat rank @ ''/'' @ show_nat total_n @ '' | ''
        @ format_f 1 ratio @ ''x | '' @ fastest @ '' |'')"

definition lumen_section :: "lumen_rank list \<Rightarrow> py_error + string list" where
  "lumen_section lumen_ranks =
     (if lumen_ranks \<noteq> [] then
        (case py_mean (map (\<lambda>(bench, rank, total_n, ratio, fastest). ratio) lumen_ranks) of
           Inl e \<Rightarrow> Inl e
         | Inr avg_ratio \<Rightarrow>
             Inr ([''| Benchmark | Lumen Rank | vs Fastest | Fastest Language |'',
                   ''|-----------|:----------:|:----------:|:----------------:|'']
                  @ map lumen_rank_line lumen_ranks
                  @ [ [],
                     ''Average slowdown vs fastest: **'' @ format_f 1 avg_ratio @ ''x**'',
                     []]))
      else Inr [])"

text \<open>The list \<^verbatim>\<open>lines\<close> that \<^verbatim>\<open>generate_markdown\<close> builds, and the function itself.\<close>

definition markdown_lines :: "report_data \<Rightarrow> string \<Rightarrow> py_error + string list" where
  "markdown_lines data csv_path =
     (let all_langs = all_langs_of data;
          header = ''| Benchmark |'' @ py_join ''|'' (map (\<lambda>lang. '' '' @ lang @ '' '') all_langs)
                   @ ''| Fastest |'';
          sep = ''|-----------|'' @ py_join ''|'' (map (\<lambda>lang. ''------:'') all_langs)
                @ ''|---------|'';
          header2 = ''| Benchmark |'' @ py_join ''|'' (map (\<lambda>lang. '' '' @ lang @ '' '') all_langs)
                    @ ''|'';
          sep2 = ''|-----------|'' @ py_join ''|'' (map (\<lambda>lang. ''------:'') all_langs) @ ''|''
      in case map_result (summary_row all_langs) (sort_key fst data) of
           Inl e \<Rightarrow> Inl e
         | Inr summary \<Rightarrow>
        (case map_result (relative_row all_langs) (sort_key fst data) of
           Inl e \<Rightarrow> Inl e
         | Inr relative \<Rightarrow>
        (case lumen_ranks_of data of
           Inl e \<Rightarrow> Inl e
         | Inr lumen_ranks \<Rightarrow>
        (case lumen_section lumen_ranks of
           Inl e \<Rightarrow> Inl e
         | Inr lumen_lines \<Rightarrow>
             Inr (([''# Lumen Cross-Language Benchmark Report'', [],
                     ''Source: `'' @ csv_path @ ''`'', [],
                     ''## Summary (median time in ms)'', [],
                     header, sep]
                    @ summary
                    @ [ [],
                       ''## Relative Performance (vs C baseline)'', [],
                       ''Values show how many times slower than C (1.0x = same speed).'', [],
                       header2, sep2]
                    @ relative
                    @ [ [], ''## Detailed Results'', []]
                    @ concat (map detail_section (sort_key fst data))
                    @ [''## Lumen Performance Analysis'', []]
                    @ lumen_lines
                    @ [''---'', ''*Generated by `bench/generate_report.py`*'', []]))))))"

definition generate_markdown :: "report_data \<Rightarrow> string \<Rightarrow> py_error + string" where
  "generate_markdown data csv_path =
     (case markdown_lines data csv_path of
        Inl e \<Rightarrow> Inl e
      | Inr lines \<Rightarrow> Inr (py_join [CHR 0x0A] lines))"

text \<open>
  \<^verbatim>\<open>main\<close> of \<^verbatim>\<open>generate_report.py\<close>, after argument parsing. The file is given as its
  data lines; \<^verbatim>\<open>json.dumps\<close> is a parameter. The outcome records the exit status, what
  went to the two streams and what was written to the output file; an exception nobody
  catches is the \<open>Inl\<close> branch.
\<close>

record main_args =
  csv_file :: string
  output_file :: "string option"
  json :: bool

record main_outcome =
  exit_status :: nat
  to_stdout :: "string list"
  to_stderr :: "string list"
  written :: "(string \<times> string) option"

definition main :: "(report_data \<Rightarrow> string) \<Rightarrow> main_args \<Rightarrow> csv_line list \<Rightarrow> py_error + main_outcome" where
  "main json_dumps args file_lines =
     (case load_csv file_lines of
        Inl e \<Rightarrow> Inl e
      | Inr rows \<Rightarrow>
          (if rows = [] then
             Inr \<lparr>exit_status = 1, to_stdout = [],
                  to_stderr = [''No valid results found in CSV.''], written = None\<rparr>
           else
             (case aggregate rows of
                Inl e \<Rightarrow> Inl e
              | Inr data \<Rightarrow>
                  (case (if json args then Inr (json_dumps data)
                         else generate_markdown data (csv_file args)) of
                     Inl e \<Rightarrow> Inl e
                   | Inr text \<Rightarrow>
                       (case output_file args of
                          Some path \<Rightarrow>
                            Inr \<lparr>exit_status = 0, to_stdout = [],
                                 to_stderr = [''Report written to '' @ path],
                                 written = Some (path, text)\<rparr>
                        | None \<Rightarrow>
                            Inr \<lparr>exit_status = 0, to_stdout = [text], to_stderr = [],
                                 written = None\<rparr>)))))"

section \<open>The suite runner\<close>

text \<open>
  \<^verbatim>\<open>bench/python_bench.py\<close>. A kernel reads the clock before and after its workload; the
  two readings are arguments here. A kernel either returns the elapsed seconds or raises,
  and the runner only uses the text of the exception, so a kernel's outcome is
  \<open>Inr elapsed\<close> or \<open>Inl text\<close>.
\<close>

type_synonym kernel_outcome = "string + real"

function fib :: "int \<Rightarrow> int" where
  "fib n = (if n < 2 then n else fib (n - 1) + fib (n - 2))"
  by pat_completeness auto
termination
  by (relation "measure nat") auto

declare fib.simps [simp del]

definition show_int :: "int \<Rightarrow> string" where
  "show_int i = (if i < 0 then ''-'' @ show_nat (nat (- i)) else show_nat (nat i))"

definition bench_int_fib :: "real \<Rightarrow> real \<Rightarrow> kernel_outcome" where
  "bench_int_fib t_start t_stop =
     (let result = fib 35;
          elapsed = t_stop - t_start
      in if result = 9227465 then Inr elapsed
         else Inl (''fib(35) = '' @ show_int result))"

text \<open>
  The loop of \<^verbatim>\<open>main\<close> over \<^verbatim>\<open>BENCHMARKS\<close>: the argument pairs each name with the
  outcome of calling its kernel; the result is the list \<^verbatim>\<open>results\<close> and the lines
  printed, one per kernel.
\<close>

fun run_benchmarks ::
  "(string \<times> kernel_outcome) list \<Rightarrow> (string \<times> real option) list \<times> string list" where
  "run_benchmarks [] = ([], [])"
| "run_benchmarks ((name, outcome) # rest) =
     (case run_benchmarks rest of (results, printed) \<Rightarrow>
        (case outcome of
           Inr elapsed \<Rightarrow>
             ((name, Some elapsed) # results,
              (''BENCH '' @ name @ '': '' @ format_f 4 elapsed @ ''s'') # printed)
         | Inl e \<Rightarrow>
             ((name, None) # results,
              (''BENCH '' @ name @ '': FAILED ('' @ e @ '')'') # printed)))"

definition summary_table :: "(string \<times> real option) list \<Rightarrow> string list" where
  "summary_table results =
     [ [CHR 0x0A] @ replicate 40 CHR ''='',
      ljust 25 ''Benchmark'' @ '' '' @ rjust 10 ''Time'',
      replicate 40 CHR ''-'']
     @ map (\<lambda>(name, elapsed).
              case elapsed of
                Some t \<Rightarrow> ljust 25 name @ '' '' @ rjust 9 (format_f 4 t) @ ''s''
              | None \<Rightarrow> ljust 25 name @ '' '' @ rjust 10 ''FAILED'') results
     @ [replicate 40 CHR ''-'',
        ljust 25 ''TOTAL'' @ '' ''
        @ rjust 9 (format_f 4
            (foldl (\<lambda>acc (name, elapsed).
                      case elapsed of Some t \<Rightarrow> acc + t | None \<Rightarrow> acc) 0 results))
        @ ''s'',
        replicate 40 CHR ''='']"

definition python_bench_main :: "string \<Rightarrow> (string \<times> kernel_outcome) list \<Rightarrow> string list" where
  "python_bench_main version kernels =
     (case run_benchmarks kernels of (results, printed) \<Rightarrow>
        [''Python '' @ version,
         ''Running '' @ show_nat (length kernels) @ '' benchmarks...'' @ [CHR 0x0A]]
        @ printed
        @ summary_table results)"

section \<open>Notions of the specification\<close>

text \<open>The timing samples of one (benchmark, language) key, in input order.\<close>

definition samples :: "result_row list \<Rightarrow> string \<Rightarrow> string \<Rightarrow> real list" where
  "samples rows b l = map time_ms (filter (\<lambda>r. benchmark r = b \<and> language r = l) rows)"

text \<open>
  The median by the standard definition, the sample standard deviation with divisor
  \<open>n - 1\<close>, and the statistics record the specification describes.
\<close>

definition standard_median :: "real list \<Rightarrow> real" where
  "standard_median ts =
     (let s = sort ts; n = length ts
      in if odd n then s ! (n div 2) else (s ! (n div 2 - 1) + s ! (n div 2)) / 2)"

definition sample_stdev :: "real list \<Rightarrow> real" where
  "sample_stdev ts =
     sqrt ((\<Sum>x\<leftarrow>ts. (x - sum_list ts / real (length ts))\<^sup>2) / real (length ts - 1))"

definition expected_stats :: "real list \<Rightarrow> language_stats" where
  "expected_stats ts =
     \<lparr>median = standard_median ts,
      mean = py_round2 (sum_list ts / real (length ts)),
      min_ms = Min (set ts),
      max_ms = Max (set ts),
      stdev = (if length ts < 2 then 0 else py_round2 (sample_stdev ts)),
      runs = length ts\<rparr>"

text \<open>The aggregated model in closed form: sorted benchmark names, under each the sorted
  names of the languages that have a sample, under each the statistics of its samples.\<close>

definition benchmarks_of :: "result_row list \<Rightarrow> string list" where
  "benchmarks_of rows = sorted_list_of_set (benchmark ` set rows)"

definition languages_of :: "result_row list \<Rightarrow> string \<Rightarrow> string list" where
  "languages_of rows b =
     sorted_list_of_set (language ` {r \<in> set rows. benchmark r = b})"

definition expected_aggregate :: "result_row list \<Rightarrow> report_data" where
  "expected_aggregate rows =
     map (\<lambda>b. (b, map (\<lambda>l. (l, expected_stats (samples rows b l))) (languages_of rows b)))
       (benchmarks_of rows)"


text \<open>The invariant of the grouping loop of \<^verbatim>\<open>aggregate\<close>.\<close>

definition grouped_inv :: "result_row list \<Rightarrow> grouped_times \<Rightarrow> bool" where
  "grouped_inv rows g \<longleftrightarrow>
     distinct (map fst g) \<and>
     (\<forall>b. map_of g b = None \<longleftrightarrow> b \<notin> benchmark ` set rows) \<and>
     (\<forall>b inner. map_of g b = Some inner \<longrightarrow>
        distinct (map fst inner) \<and>
        (\<forall>l. map_of inner l =
           (if samples rows b l = [] then None else Some (samples rows b l))))"

text \<open>
  The kernel stdout contract: a line \<^verbatim>\<open>BENCH <name>: <seconds>s\<close> with the seconds in
  digits, a point and exactly four more digits.
\<close>

definition is_timing_line :: "string \<Rightarrow> string \<Rightarrow> bool" where
  "is_timing_line name line =
     (let prefix = ''BENCH '' @ name @ '': '';
          rest = drop (length prefix) line;
          ip = takeWhile is_digit rest;
          after = dropWhile is_digit rest
      in take (length prefix) line = prefix \<and> ip \<noteq> [] \<and>
         (case after of
            [] \<Rightarrow> False
          | c # fp \<Rightarrow>
              c = CHR ''.'' \<and> length fp = 5 \<and> list_all is_digit (take 4 fp) \<and> drop 4 fp = ''s''))"


text \<open>
  The two ways a data line can pass through the loader: it is left out (a blank line, or
  the marker in its third field), or its third field is read as a number and the line
  becomes a row.
\<close>

definition dropped_line :: "csv_line \<Rightarrow> bool" where
  "dropped_line fs = (case fs of [] \<Rightarrow> True | b # l # t # extra \<Rightarrow> t = ''ERROR'' | _ \<Rightarrow> False)"

definition parsed_line :: "csv_line \<Rightarrow> result_row option" where
  "parsed_line fs =
     (case fs of
        b # l # t # extra \<Rightarrow>
          (case py_float t of
             Inr x \<Rightarrow> Some \<lparr>benchmark = b, language = l, time_ms = x\<rparr>
           | Inl e \<Rightarrow> None)
      | _ \<Rightarrow> None)"

definition loaded_rows :: "csv_line list \<Rightarrow> result_row list" where
  "loaded_rows file_lines =
     concat (map (\<lambda>fs. if dropped_line fs then []
                         else (case parsed_line fs of Some r \<Rightarrow> [r] | None \<Rightarrow> []))
               file_lines)"



section \<open>Properties of the library functions\<close>

lemma map_result_Inr:
  "(\<And>x. x \<in> set xs \<Longrightarrow> f x = Inr (g x)) \<Longrightarrow> map_result f xs = Inr (map g xs)"
  by (induction xs) auto

lemma py_min_Min: "ts \<noteq> [] \<Longrightarrow> py_min ts = Inr (Min (set ts))"
proof (cases ts)
  case (Cons x xs)
  have "(\<lambda>best y. if y < best then y else best) = (\<lambda>best y::real. min y best)"
    by (auto simp: fun_eq_iff)
  then have "foldl (\<lambda>best y. if y < best then y else best) x xs = fold min xs x"
    by (simp add: foldl_conv_fold)
  also have "\<dots> = Min (set (x # xs))"
    by (rule Min.set_eq_fold [symmetric])
  finally show ?thesis
    by (simp only: Cons py_min_def py_min_key.simps)
qed simp

lemma py_max_Max: "ts \<noteq> [] \<Longrightarrow> py_max ts = Inr (Max (set ts))"
proof (cases ts)
  case (Cons x xs)
  have "(\<lambda>best y. if best < y then y else best) = (\<lambda>best y::real. max y best)"
    by (auto simp: fun_eq_iff)
  then have "foldl (\<lambda>best y. if best < y then y else best) x xs = fold max xs x"
    by (simp add: foldl_conv_fold)
  also have "\<dots> = Max (set (x # xs))"
    by (rule Max.set_eq_fold [symmetric])
  finally show ?thesis
    by (simp only: Cons py_max_def py_max_key.simps)
qed simp

lemma sort_not_Nil: "ts \<noteq> [] \<Longrightarrow> sort ts \<noteq> []"
  by (metis set_empty set_sort)

lemma py_median_standard: "ts \<noteq> [] \<Longrightarrow> py_median ts = Inr (standard_median ts)"
  by (auto simp: py_median_def standard_median_def Let_def odd_iff_mod_2_eq_one
      dest: sort_not_Nil)

lemma stats_of_times_expected:
  "ts \<noteq> [] \<Longrightarrow> stats_of_times ts = Inr (expected_stats ts)"
  by (cases ts)
     (auto simp: stats_of_times_def expected_stats_def py_median_standard py_min_Min
        py_max_Max py_mean_def py_stdev_def sample_stdev_def Let_def)



lemma standard_median_bounds:
  assumes "ts \<noteq> []"
  shows "Min (set ts) \<le> standard_median ts" and "standard_median ts \<le> Max (set ts)"
proof -
  let ?s = "sort ts" and ?n = "length ts"
  have n: "0 < ?n" using assms by simp
  have el: "Min (set ts) \<le> ?s ! i \<and> ?s ! i \<le> Max (set ts)" if "i < ?n" for i
  proof -
    have "?s ! i \<in> set ts" using that by (metis length_sort nth_mem set_sort)
    then show ?thesis by simp
  qed
  have a: "?n div 2 < ?n" and b: "?n div 2 - 1 < ?n" using n by linarith+
  show "Min (set ts) \<le> standard_median ts"
    using el [OF a] el [OF b] by (simp add: standard_median_def Let_def)
  show "standard_median ts \<le> Max (set ts)"
    using el [OF a] el [OF b] by (simp add: standard_median_def Let_def)
qed

section \<open>The grouping loop and the closed form of aggregate\<close>

lemma map_of_dd_update:
  "map_of (dd_update k d f kvs) =
     (map_of kvs)(k \<mapsto> f (case map_of kvs k of None \<Rightarrow> d | Some v \<Rightarrow> v))"
  by (induction kvs) (auto simp: fun_eq_iff)

lemma keys_dd_update:
  "map fst (dd_update k d f kvs) =
     (if k \<in> fst ` set kvs then map fst kvs else map fst kvs @ [k])"
  by (induction kvs) force+

lemma distinct_dd_update:
  "distinct (map fst kvs) \<Longrightarrow> distinct (map fst (dd_update k d f kvs))"
  by (simp add: keys_dd_update)

lemma samples_snoc:
  "samples (rows @ [r]) b l =
     samples rows b l @ (if benchmark r = b \<and> language r = l then [time_ms r] else [])"
  by (simp add: samples_def)

lemma grouped_inv_empty: "grouped_inv [] []"
  by (simp add: grouped_inv_def samples_def)

lemma samples_empty_no_bench:
  "b \<notin> benchmark ` set rows \<Longrightarrow> samples rows b l = []"
  by (auto simp: samples_def filter_empty_conv)

lemma grouped_inv_step:
  assumes "grouped_inv rows g"
  shows "grouped_inv (rows @ [r]) (grouped_add g r)"
proof -
  let ?b = "benchmark r" and ?l = "language r"
  let ?inner = "case map_of g ?b of None \<Rightarrow> [] | Some i \<Rightarrow> i"
  let ?inner' = "dd_update ?l [] (\<lambda>ts. ts @ [time_ms r]) ?inner"
  have mo: "map_of (grouped_add g r) = (map_of g)(?b \<mapsto> ?inner')"
    by (simp add: grouped_add_def map_of_dd_update)
  have d: "distinct (map fst (grouped_add g r))"
    using assms by (simp add: grouped_add_def grouped_inv_def distinct_dd_update)
  have inner_d: "distinct (map fst ?inner)"
    using assms by (auto simp: grouped_inv_def split: option.splits)
  have inner_m: "map_of ?inner l =
           (if samples rows ?b l = [] then None else Some (samples rows ?b l))" for l
  proof (cases "map_of g ?b")
    case None
    then have "?b \<notin> benchmark ` set rows" using assms unfolding grouped_inv_def by blast
    then show ?thesis using None by (simp add: samples_empty_no_bench)
  next
    case (Some i)
    then show ?thesis using assms unfolding grouped_inv_def by simp
  qed
  have inner'_m: "map_of ?inner' l =
           (if samples (rows @ [r]) ?b l = [] then None else Some (samples (rows @ [r]) ?b l))" for l
    by (simp add: map_of_dd_update inner_m samples_snoc)
  have k: "(map_of (grouped_add g r) b = None) = (b \<notin> benchmark ` set (rows @ [r]))" for b
    using assms by (auto simp: mo grouped_inv_def)
  have v: "distinct (map fst inner) \<and>
        (\<forall>l. map_of inner l =
           (if samples (rows @ [r]) b l = [] then None else Some (samples (rows @ [r]) b l)))"
    if "map_of (grouped_add g r) b = Some inner" for b inner
  proof (cases "b = ?b")
    case True
    then have "inner = ?inner'" using that by (simp add: mo)
    then show ?thesis using inner_d inner'_m True by (simp add: distinct_dd_update)
  next
    case False
    then have "map_of g b = Some inner" using that by (simp add: mo)
    then show ?thesis using assms False by (simp add: grouped_inv_def samples_snoc)
  qed
  show ?thesis unfolding grouped_inv_def using d k v by blast
qed

lemma grouped_inv_grouped: "grouped_inv rows (grouped rows)"
  unfolding grouped_def
proof (induction rows rule: rev_induct)
  case Nil
  then show ?case by (simp add: grouped_inv_empty)
next
  case (snoc r rows)
  then show ?case by (simp add: grouped_inv_step)
qed

lemma sort_key_fst_distinct:
  fixes kvs :: "('k::linorder \<times> 'v) list"
  assumes "distinct (map fst kvs)"
  shows "sort_key fst kvs =
           map (\<lambda>k. (k, the (map_of kvs k))) (sorted_list_of_set (fst ` set kvs))"
proof (rule map_sorted_distinct_set_unique [where f = fst])
  show "inj_on fst (set (sort_key fst kvs) \<union> set (map (\<lambda>k. (k, the (map_of kvs k))) (sorted_list_of_set (fst ` set kvs))))"
    using assms by (auto simp: inj_on_def dest: map_of_is_SomeI eq_key_imp_eq_value)
  show "set (sort_key fst kvs) = set (map (\<lambda>k. (k, the (map_of kvs k))) (sorted_list_of_set (fst ` set kvs)))"
    using assms by (force simp: image_iff dest: map_of_is_SomeI)
  show "distinct (map fst (sort_key fst kvs))"
    using assms by (metis distinct_map distinct_sort set_sort)
qed (simp_all add: comp_def)



lemma samples_eq_Nil_iff:
  "samples rows b l = [] \<longleftrightarrow> l \<notin> language ` {r \<in> set rows. benchmark r = b}"
  by (auto simp: samples_def filter_empty_conv)

lemma grouped_keys: "fst ` set (grouped rows) = benchmark ` set rows"
proof -
  have "map_of (grouped rows) b = None \<longleftrightarrow> b \<notin> benchmark ` set rows" for b
    using grouped_inv_grouped [of rows] unfolding grouped_inv_def by blast
  then show ?thesis
    by (metis (no_types, lifting) map_of_eq_None_iff subsetI subset_antisym)
qed

lemma aggregate_expected: "aggregate rows = Inr (expected_aggregate rows)"
proof -
  let ?g = "grouped rows"
  have inv: "grouped_inv rows ?g" by (rule grouped_inv_grouped)
  then have dg: "distinct (map fst ?g)" by (simp add: grouped_inv_def)
  have outer: "sort_key fst ?g = map (\<lambda>b. (b, the (map_of ?g b))) (benchmarks_of rows)"
    by (simp add: sort_key_fst_distinct [OF dg] grouped_keys benchmarks_of_def)
  have inner: "map_result
                 (\<lambda>(lang, ts).
                    case stats_of_times ts of Inl e \<Rightarrow> Inl e | Inr s \<Rightarrow> Inr (lang, s))
                 (sort_key fst (the (map_of ?g b)))
               = Inr (map (\<lambda>l. (l, expected_stats (samples rows b l))) (languages_of rows b))"
    if "b \<in> set (benchmarks_of rows)" for b
  proof -
    from that have "b \<in> benchmark ` set rows" by (simp add: benchmarks_of_def)
    then obtain i where i: "map_of ?g b = Some i"
      using inv unfolding grouped_inv_def by (metis not_Some_eq)
    then have di: "distinct (map fst i)"
      and mi: "\<And>l. map_of i l = (if samples rows b l = [] then None else Some (samples rows b l))"
      using inv unfolding grouped_inv_def by blast+
    have "fst ` set i = language ` {r \<in> set rows. benchmark r = b}"
    proof -
      have "l \<in> fst ` set i \<longleftrightarrow> l \<in> language ` {r \<in> set rows. benchmark r = b}" for l
        using mi [of l] samples_eq_Nil_iff [of rows b l]
        by (metis map_of_eq_None_iff option.distinct(1))
      then show ?thesis by blast
    qed
    then have s: "sort_key fst i = map (\<lambda>l. (l, the (map_of i l))) (languages_of rows b)"
      by (simp add: sort_key_fst_distinct [OF di] languages_of_def)
    have "map_result
            (\<lambda>(lang, ts).
               case stats_of_times ts of Inl e \<Rightarrow> Inl e | Inr s \<Rightarrow> Inr (lang, s))
            (map (\<lambda>l. (l, the (map_of i l))) (languages_of rows b))
          = Inr (map ((\<lambda>(l, ts). (l, expected_stats ts)))
                  (map (\<lambda>l. (l, the (map_of i l))) (languages_of rows b)))"
    proof (rule map_result_Inr)
      fix x assume "x \<in> set (map (\<lambda>l. (l, the (map_of i l))) (languages_of rows b))"
      then obtain l where l: "l \<in> language ` {r \<in> set rows. benchmark r = b}"
        and x: "x = (l, the (map_of i l))"
        by (auto simp: languages_of_def)
      from l have "samples rows b l \<noteq> []" by (simp add: samples_eq_Nil_iff)
      then show "(case x of (lang, ts) \<Rightarrow>
                    case stats_of_times ts of Inl e \<Rightarrow> Inl e | Inr s \<Rightarrow> Inr (lang, s))
                 = Inr (case x of (l, ts) \<Rightarrow> (l, expected_stats ts))"
        by (simp add: x mi stats_of_times_expected)
    qed
    moreover have "map ((\<lambda>(l, ts). (l, expected_stats ts)))
                  (map (\<lambda>l. (l, the (map_of i l))) (languages_of rows b))
          = map (\<lambda>l. (l, expected_stats (samples rows b l))) (languages_of rows b)"
      by (auto simp: mi languages_of_def samples_eq_Nil_iff)
    ultimately show ?thesis by (simp add: i s)
  qed
  show ?thesis
    unfolding aggregate_def outer expected_aggregate_def
    by (subst map_result_Inr
          [where g = "\<lambda>(bench, langs). (bench, map (\<lambda>l. (l, expected_stats (samples rows bench l)))
                                        (languages_of rows bench))"])
       (auto simp: inner)
qed



lemma expected_aggregate_entry:
  assumes "(b, langs) \<in> set (expected_aggregate rows)" and "(l, s) \<in> set langs"
  shows "samples rows b l \<noteq> []" and "s = expected_stats (samples rows b l)"
  using assms
  by (auto simp: expected_aggregate_def languages_of_def samples_eq_Nil_iff)

section \<open>Claims about aggregation\<close>



section \<open>Claims about ranking\<close>

lemma py_min_key_first:
  "py_min_key key (x # xs) = Inr r \<Longrightarrow>
     \<exists>pre post. x # xs = pre @ r # post \<and> (\<forall>y\<in>set pre. key r < key y)
                \<and> (\<forall>y\<in>set post. key r \<le> key y)"
proof (induction xs arbitrary: x)
  case Nil
  then have "[x] = [] @ r # []" by simp
  then show ?case by (metis empty_iff list.set(1))
next
  case (Cons y ys)
  show ?case
  proof (cases "key y < key x")
    case True
    with Cons.prems have "py_min_key key (y # ys) = Inr r" by simp
    from Cons.IH [OF this] obtain pre post where
      s: "y # ys = pre @ r # post" and p: "\<forall>z\<in>set pre. key r < key z"
      and q: "\<forall>z\<in>set post. key r \<le> key z" by blast
    have "key r \<le> key y"
      using s p by (cases pre) auto
    then have "\<forall>z\<in>set (x # pre). key r < key z" using p True by auto
    moreover have "x # y # ys = (x # pre) @ r # post" using s by simp
    ultimately show ?thesis using q by blast
  next
    case False
    with Cons.prems have "py_min_key key (x # ys) = Inr r" by simp
    from Cons.IH [OF this] obtain pre post where
      s: "x # ys = pre @ r # post" and p: "\<forall>z\<in>set pre. key r < key z"
      and q: "\<forall>z\<in>set post. key r \<le> key z" by blast
    show ?thesis
    proof (cases pre)
      case Nil
      then have "x # y # ys = [] @ r # (y # post)" using s by simp
      moreover have "\<forall>z\<in>set (y # post). key r \<le> key z"
        using q s Nil False by auto
      ultimately show ?thesis by (metis empty_iff list.set(1))
    next
      case (Cons x' pre')
      then have "x # y # ys = (x # y # pre') @ r # post" using s by simp
      moreover have "\<forall>z\<in>set (x # y # pre'). key r < key z"
        using p Cons s False by auto
      ultimately show ?thesis using q by blast
    qed
  qed
qed

lemma sort_mset_eq:
  fixes xs ys :: "real list"
  shows "mset xs = mset ys \<Longrightarrow> sort xs = sort ys"
  by (metis sorted_list_of_multiset_mset)

lemma expected_stats_mset:
  assumes "mset xs = mset ys"
  shows "expected_stats xs = expected_stats ys"
proof -
  have len: "length xs = length ys" using assms by (rule mset_eq_length)
  have st: "set xs = set ys" using assms by (rule mset_eq_setD)
  have sm: "sum_list (map g xs) = sum_list (map g ys)" for g :: "real \<Rightarrow> real"
    using assms by (metis mset_map sum_mset_sum_list)
  have sm': "sum_list xs = sum_list ys" using sm [of "\<lambda>x. x"] by simp
  show ?thesis
    by (simp add: expected_stats_def standard_median_def sample_stdev_def
        sort_mset_eq [OF assms] len st sm sm')
qed

lemma expected_aggregate_mset:
  assumes "mset rows' = mset rows"
  shows "expected_aggregate rows' = expected_aggregate rows"
proof -
  have st: "set rows' = set rows" using assms by (rule mset_eq_setD)
  have "mset (samples rows' b l) = mset (samples rows b l)" for b l
    unfolding samples_def mset_map mset_filter assms ..
  then have "expected_stats (samples rows' b l) = expected_stats (samples rows b l)" for b l
    by (rule expected_stats_mset)
  then show ?thesis
    by (simp add: expected_aggregate_def benchmarks_of_def languages_of_def st)
qed

lemma expected_aggregate_keys:
  "map fst (expected_aggregate rows) = benchmarks_of rows"
  by (simp add: expected_aggregate_def comp_def)

lemma expected_aggregate_group:
  assumes "(b, langs) \<in> set (expected_aggregate rows)"
  shows "map fst langs = languages_of rows b" and "langs \<noteq> []"
  using assms
  by (auto simp: expected_aggregate_def comp_def languages_of_def benchmarks_of_def)

lemma strict_sorted_languages: "sorted (languages_of rows b) \<and> distinct (languages_of rows b)"
  by (simp add: languages_of_def)

text \<open>
  Claim C4. For every benchmark group of an aggregated model, \<open>find_fastest\<close> returns a
  language of the group whose median is least; among the languages with that same median
  it is the first in lexicographic order; and aggregating the same rows in any other
  order gives the same answer for that benchmark.
\<close>

theorem find_fastest_aggregated:
  assumes "aggregate rows = Inr data" and "(b, langs) \<in> set data"
  shows "\<exists>l s. find_fastest langs = Inr l \<and> (l, s) \<in> set langs \<and>
           (\<forall>(l', s') \<in> set langs.
              median s \<le> median s' \<and> (median s' = median s \<longrightarrow> l \<le> l')) \<and>
           (\<forall>rows' data' langs'.
              mset rows' = mset rows \<and> aggregate rows' = Inr data' \<and> (b, langs') \<in> set data'
              \<longrightarrow> find_fastest langs' = Inr l)"
proof -
  have data: "data = expected_aggregate rows"
    using assms(1) by (simp add: aggregate_expected)
  have keys: "map fst langs = languages_of rows b" and ne: "langs \<noteq> []"
    using expected_aggregate_group assms(2) unfolding data by blast+
  then have srt: "sorted (map fst langs)" and dst: "distinct (map fst langs)"
    using strict_sorted_languages by simp_all
  let ?key = "\<lambda>(lang, s). median (s :: language_stats)"
  obtain x xs where langs: "langs = x # xs" using ne by (cases langs) auto
  obtain l s where m: "py_min_key ?key (x # xs) = Inr (l, s)"
    by (cases "foldl (\<lambda>best y. if ?key y < ?key best then y else best) x xs") simp
  from py_min_key_first [OF m] obtain pre post where
    split: "x # xs = pre @ (l, s) # post" and p: "\<forall>y\<in>set pre. ?key (l, s) < ?key y"
    and q: "\<forall>y\<in>set post. ?key (l, s) \<le> ?key y" by blast
  have ff: "find_fastest langs = Inr l"
    using m by (simp add: find_fastest_def langs)
  have mem: "(l, s) \<in> set langs" using split langs by simp
  have least: "median s \<le> median s' \<and> (median s' = median s \<longrightarrow> l \<le> l')"
    if "(l', s') \<in> set langs" for l' s'
  proof -
    from that consider "(l', s') \<in> set pre" | "(l', s') = (l, s)" | "(l', s') \<in> set post"
      using split langs by auto
    then show ?thesis
    proof cases
      case 1
      then show ?thesis using p by auto
    next
      case 2
      then show ?thesis by simp
    next
      case 3
      have "sorted (map fst (pre @ (l, s) # post))" using srt split langs by simp
      then have "l \<le> l'" using 3 by (auto simp: sorted_append)
      then show ?thesis using q 3 by auto
    qed
  qed
  have perm: "find_fastest langs' = Inr l"
    if "mset rows' = mset rows" and "aggregate rows' = Inr data'" and "(b, langs') \<in> set data'"
    for rows' data' langs'
  proof -
    have "data' = expected_aggregate rows'"
      using that(2) by (simp add: aggregate_expected)
    then have "data' = data"
      unfolding data using expected_aggregate_mset [OF that(1)] by simp
    moreover have "distinct (map fst data)"
      by (simp add: data expected_aggregate_keys benchmarks_of_def)
    ultimately have "langs' = langs"
      using that(3) assms(2) by (metis eq_key_imp_eq_value)
    then show ?thesis using ff by simp
  qed
  show ?thesis using ff mem least perm by blast
qed


text \<open>The statement of C4 where \<open>b\<close> and \<open>a\<close> tie at 100 and the row of \<open>b\<close> comes first;
  the second input holds the same rows in reverse order.\<close>

theorem find_fastest_aggregated_witness:
  "aggregate
     [\<lparr>benchmark = ''x'', language = ''b'', time_ms = 100\<rparr>,
      \<lparr>benchmark = ''x'', language = ''a'', time_ms = 100\<rparr>,
      \<lparr>benchmark = ''x'', language = ''c'', time_ms = 120\<rparr>]
   = Inr [(''x'',
           [(''a'', \<lparr>median = 100, mean = 100, min_ms = 100, max_ms = 100, stdev = 0, runs = 1\<rparr>),
            (''b'', \<lparr>median = 100, mean = 100, min_ms = 100, max_ms = 100, stdev = 0, runs = 1\<rparr>),
            (''c'', \<lparr>median = 120, mean = 120, min_ms = 120, max_ms = 120, stdev = 0, runs = 1\<rparr>)])]
   \<and> find_fastest
         [(''a'', \<lparr>median = 100, mean = 100, min_ms = 100, max_ms = 100, stdev = 0, runs = 1\<rparr>),
          (''b'', \<lparr>median = 100, mean = 100, min_ms = 100, max_ms = 100, stdev = 0, runs = 1\<rparr>),
          (''c'', \<lparr>median = 120, mean = 120, min_ms = 120, max_ms = 120, stdev = 0, runs = 1\<rparr>)]
       = Inr ''a''
   \<and> aggregate
         [\<lparr>benchmark = ''x'', language = ''c'', time_ms = 120\<rparr>,
          \<lparr>benchmark = ''x'', language = ''a'', time_ms = 100\<rparr>,
          \<lparr>benchmark = ''x'', language = ''b'', time_ms = 100\<rparr>]
       = Inr [(''x'',
           [(''a'', \<lparr>median = 100, mean = 100, min_ms = 100, max_ms = 100, stdev = 0, runs = 1\<rparr>),
            (''b'', \<lparr>median = 100, mean = 100, min_ms = 100, max_ms = 100, stdev = 0, runs = 1\<rparr>),
            (''c'', \<lparr>median = 120, mean = 120, min_ms = 120, max_ms = 120, stdev = 0, runs = 1\<rparr>)])]"
proof -
  let ?rows = "[\<lparr>benchmark = ''x'', language = ''b'', time_ms = 100\<rparr>,
      \<lparr>benchmark = ''x'', language = ''a'', time_ms = 100\<rparr>,
      \<lparr>benchmark = ''x'', language = ''c'', time_ms = 120\<rparr>]"
  let ?rows' = "[\<lparr>benchmark = ''x'', language = ''c'', time_ms = 120\<rparr>,
          \<lparr>benchmark = ''x'', language = ''a'', time_ms = 100\<rparr>,
          \<lparr>benchmark = ''x'', language = ''b'', time_ms = 100\<rparr>]"
  let ?langs = "[(''a'', \<lparr>median = 100, mean = 100, min_ms = 100, max_ms = 100, stdev = 0, runs = 1::nat\<rparr>),
            (''b'', \<lparr>median = 100, mean = 100, min_ms = 100, max_ms = 100, stdev = 0, runs = 1\<rparr>),
            (''c'', \<lparr>median = 120, mean = 120, min_ms = 120, max_ms = 120, stdev = 0, runs = 1\<rparr>)]"
  have r: "py_round2 100 = 100" "py_round2 120 = 120"
    by (simp_all add: py_round2_def round_half_even_def)
  have a: "aggregate ?rows = Inr [(''x'', ?langs)]"
    by (simp add: aggregate_def grouped_def grouped_add_def stats_of_times_def
        py_median_def py_mean_def py_min_def py_max_def Let_def r)
  have a': "aggregate ?rows' = Inr [(''x'', ?langs)]"
    by (simp add: aggregate_def grouped_def grouped_add_def stats_of_times_def
        py_median_def py_mean_def py_min_def py_max_def Let_def r)
  have m: "(''x'', ?langs) \<in> set [(''x'', ?langs)]" by simp
  from find_fastest_aggregated [OF a m]
  have "\<exists>l. find_fastest ?langs = Inr l"
    by (elim exE conjE) (rule exI)
  moreover have "find_fastest ?langs = Inr ''a''"
    by (simp add: find_fastest_def)
  ultimately show ?thesis using a a' by simp
qed

section \<open>Claims about loading and the command\<close>

lemma load_csv_Cons:
  "load_csv (fs # rest) =
     (if dropped_line fs then load_csv rest
      else (case parsed_line fs of
              None \<Rightarrow> Inl (case fs of b # l # t # extra \<Rightarrow> (case py_float t of Inl e \<Rightarrow> e | Inr x \<Rightarrow> TypeError) | _ \<Rightarrow> TypeError)
            | Some r \<Rightarrow> (case load_csv rest of Inl e \<Rightarrow> Inl e | Inr rows \<Rightarrow> Inr (r # rows))))"
  by (auto simp: dropped_line_def parsed_line_def split: list.splits sum.splits)

lemma load_csv_all_ok:
  "\<forall>fs\<in>set file_lines. dropped_line fs \<or> parsed_line fs \<noteq> None \<Longrightarrow>
     load_csv file_lines = Inr (loaded_rows file_lines)"
proof (induction file_lines)
  case Nil
  then show ?case by (simp add: loaded_rows_def)
next
  case (Cons fs rest)
  then have "load_csv rest = Inr (loaded_rows rest)" by simp
  then show ?case
    using Cons.prems by (auto simp: load_csv_Cons loaded_rows_def simp del: load_csv.simps)
qed

lemma load_csv_some_bad:
  "\<exists>fs\<in>set file_lines. \<not> dropped_line fs \<and> parsed_line fs = None \<Longrightarrow>
     \<exists>e. load_csv file_lines = Inl e"
proof (induction file_lines)
  case Nil
  then show ?case by simp
next
  case (Cons fs rest)
  show ?case
  proof (cases "\<not> dropped_line fs \<and> parsed_line fs = None")
    case True
    then show ?thesis by (simp add: load_csv_Cons del: load_csv.simps)
  next
    case False
    then have "\<exists>e. load_csv rest = Inl e" using Cons by auto
    then show ?thesis
      by (auto simp: load_csv_Cons simp del: load_csv.simps split: option.splits)
  qed
qed

text \<open>
  Claim C3, as amended. When loading leaves no row (for one, when every line carries the
  marker), \<^verbatim>\<open>main\<close> writes its diagnostic to standard error and exits with status 1;
  nothing goes to standard output or to a file. \<open>aggregate\<close> is not what fails: on the
  empty sequence it returns the empty model.
\<close>

theorem main_no_valid_rows:
  "(load_csv file_lines = Inr [] \<longrightarrow>
      main json_dumps args file_lines
      = Inr \<lparr>exit_status = 1, to_stdout = [],
             to_stderr = [''No valid results found in CSV.''], written = None\<rparr>)
   \<and> ((\<forall>fs\<in>set file_lines. \<exists>b l extra. fs = b # l # ''ERROR'' # extra) \<longrightarrow>
        load_csv file_lines = Inr [])
   \<and> aggregate [] = Inr []"
proof (intro conjI impI)
  assume "load_csv file_lines = Inr []"
  then show "main json_dumps args file_lines
      = Inr \<lparr>exit_status = 1, to_stdout = [],
             to_stderr = [''No valid results found in CSV.''], written = None\<rparr>"
    by (simp add: main_def)
next
  assume a: "\<forall>fs\<in>set file_lines. \<exists>b l extra. fs = b # l # ''ERROR'' # extra"
  then have d: "\<forall>fs\<in>set file_lines. dropped_line fs"
    by (auto simp: dropped_line_def)
  then have "load_csv file_lines = Inr (loaded_rows file_lines)"
    by (simp add: load_csv_all_ok)
  moreover have "loaded_rows file_lines = []"
    using d by (simp add: loaded_rows_def)
  ultimately show "load_csv file_lines = Inr []" by simp
next
  show "aggregate [] = Inr []"
    by (simp add: aggregate_def grouped_def)
qed

text \<open>The statement of C3 on a store that holds two marker lines and nothing else.\<close>

theorem main_no_valid_rows_witness:
  "load_csv [ [''fib'', ''a'', ''ERROR''], [''fib'', ''b'', ''ERROR'']] = Inr []
   \<and> main (\<lambda>data. ''{}'') \<lparr>csv_file = ''results.csv'', output_file = None, json = False\<rparr>
        [ [''fib'', ''a'', ''ERROR''], [''fib'', ''b'', ''ERROR'']]
      = Inr \<lparr>exit_status = 1, to_stdout = [],
             to_stderr = [''No valid results found in CSV.''], written = None\<rparr>"
proof -
  let ?f = "[ [''fib'', ''a'', ''ERROR''], [''fib'', ''b'', ''ERROR'']]"
  have e: "\<forall>fs\<in>set ?f. \<exists>b l extra. fs = b # l # ''ERROR'' # extra" by simp
  have l: "load_csv ?f = Inr []" by simp
  show ?thesis
    using e l main_no_valid_rows
      [of ?f "\<lambda>data. ''{}''" "\<lparr>csv_file = ''results.csv'', output_file = None, json = False\<rparr>"]
    by (simp del: load_csv.simps)
qed

text \<open>
  Claim C3 as stated fails: aggregation of zero rows raises nothing, it returns the
  empty model.
\<close>

theorem aggregate_empty_counterexample: "aggregate [] = Inr []"
  by (simp add: aggregate_def grouped_def)

section \<open>Claims about the suite runner\<close>

lemma digit_char_is_digit: "d < 10 \<Longrightarrow> is_digit (''0123456789'' ! d)"
proof -
  assume "d < 10"
  then have "d \<in> {0, 1, 2, 3, 4, 5, 6, 7, 8, 9}" by auto
  then show ?thesis by (auto simp: is_digit_def)
qed

lemma show_nat_digits: "show_nat n \<noteq> [] \<and> list_all is_digit (show_nat n)"
proof (induction n rule: show_nat.induct)
  case (1 n)
  show ?case
  proof (cases "n < 10")
    case True
    then show ?thesis by (simp add: show_nat.simps [of n] digit_char_is_digit)
  next
    case False
    then show ?thesis
      using 1 by (simp add: show_nat.simps [of n] digit_char_is_digit)
  qed
qed

lemma length_show_nat: "0 < k \<Longrightarrow> n < 10 ^ k \<Longrightarrow> length (show_nat n) \<le> k"
proof (induction n arbitrary: k rule: show_nat.induct)
  case (1 n)
  show ?case
  proof (cases "n < 10")
    case True
    then show ?thesis using "1.prems" by (simp add: show_nat.simps [of n])
  next
    case False
    then obtain k' where k: "k = Suc k'" and k': "0 < k'"
      using "1.prems" by (cases k; cases "k - 1") auto
    have "n div 10 < 10 ^ k'" using "1.prems"(2) k by (simp add: less_mult_imp_div_less)
    from "1.IH" [OF False k' this] show ?thesis
      using False k by (simp add: show_nat.simps [of n])
  qed
qed

lemma fib_step: "2 \<le> n \<Longrightarrow> fib n = fib (n - 1) + fib (n - 2)"
  by (simp add: fib.simps [of n])

lemma fib_funpow:
  "(fib (int k), fib (int (Suc k))) = ((\<lambda>(a, b). (b, a + b)) ^^ k) (0, 1)"
proof (induction k)
  case 0
  then show ?case by (simp add: fib.simps)
next
  case (Suc k)
  have "fib (int (Suc (Suc k))) = fib (int (Suc k)) + fib (int k)"
    using fib_step [of "int (Suc (Suc k))"] by simp
  then show ?case using Suc [symmetric] by simp
qed

lemma fib_35: "fib 35 = 9227465"
proof -
  have "((\<lambda>(a, b). (b, a + b)) ^^ 35) (0, 1) = (9227465 :: int, 14930352 :: int)"
    by (simp add: eval_nat_numeral)
  then have "fib (int 35) = 9227465"
    using fib_funpow [of 35] by simp
  then show ?thesis by simp
qed

lemma format_f_timing:
  assumes "0 \<le> t"
  shows "\<exists>ip fp. format_f 4 t = ip @ ''.'' @ fp \<and> ip \<noteq> [] \<and> list_all is_digit ip \<and>
           length fp = 4 \<and> list_all is_digit fp"
proof -
  let ?n = "nat (round_half_even (\<bar>t\<bar> * 10 ^ 4))"
  let ?fp = "zero_pad 4 (show_nat (?n mod 10 ^ 4))"
  have "length (show_nat (?n mod 10 ^ 4)) \<le> 4"
    by (rule length_show_nat) simp_all
  then have "length ?fp = 4" by (simp add: zero_pad_def)
  moreover have "list_all is_digit (replicate m CHR ''0'')" for m
    by (induction m) (simp_all add: is_digit_def)
  then have "list_all is_digit ?fp"
    using show_nat_digits [of "?n mod 10 ^ 4"] by (simp add: zero_pad_def)
  moreover have "format_f 4 t = show_nat (?n div 10 ^ 4) @ ''.'' @ ?fp"
    using assms by (simp add: format_f_def Let_def)
  ultimately show ?thesis using show_nat_digits [of "?n div 10 ^ 4"] by blast
qed

lemma timing_line_shape:
  assumes "ip \<noteq> []" "list_all is_digit ip" "length fp = 4" "list_all is_digit fp"
  shows "is_timing_line name (''BENCH '' @ name @ '': '' @ (ip @ ''.'' @ fp) @ ''s'')"
proof -
  have nd: "\<not> is_digit CHR ''.''" by (simp add: is_digit_def)
  have tw: "takeWhile is_digit (ip @ ''.'' @ fp @ ''s'') = ip"
    using assms(2) nd by (simp add: takeWhile_append2 list_all_iff)
  have dw: "dropWhile is_digit (ip @ ''.'' @ fp @ ''s'') = ''.'' @ fp @ ''s''"
    using assms(2) nd by (simp add: dropWhile_append2 list_all_iff)
  show ?thesis
    using assms(1,3,4) tw dw by (simp add: is_timing_line_def Let_def)
qed

lemma failed_line_not_timing:
  "\<not> is_timing_line name (''BENCH '' @ name @ '': FAILED ('' @ e @ '')'')"
  by (simp add: is_timing_line_def Let_def is_digit_def)

lemma run_benchmarks_lengths:
  "run_benchmarks kernels = (results, printed) \<Longrightarrow>
     length results = length kernels \<and> length printed = length kernels"
  by (induction kernels arbitrary: results printed)
     (auto split: prod.splits sum.splits)

lemma run_benchmarks_nth:
  "run_benchmarks kernels = (results, printed) \<Longrightarrow> i < length kernels \<Longrightarrow>
     (case kernels ! i of
        (name, Inl e) \<Rightarrow>
          results ! i = (name, None) \<and>
          printed ! i = ''BENCH '' @ name @ '': FAILED ('' @ e @ '')''
      | (name, Inr elapsed) \<Rightarrow>
          results ! i = (name, Some elapsed) \<and>
          printed ! i = ''BENCH '' @ name @ '': '' @ format_f 4 elapsed @ ''s'')"
proof (induction kernels arbitrary: results printed i)
  case Nil
  then show ?case by simp
next
  case (Cons k ks)
  obtain rs ps where rest: "run_benchmarks ks = (rs, ps)" by (cases "run_benchmarks ks")
  show ?case
  proof (cases i)
    case 0
    then show ?thesis
      using Cons.prems(1) rest by (cases k) (auto split: sum.splits)
  next
    case (Suc j)
    then have "j < length ks" using Cons.prems(2) by simp
    from Cons.IH [OF rest this] show ?thesis
      using Cons.prems(1) rest Suc by (cases k) (auto split: sum.splits prod.splits)
  qed
qed

section \<open>Claims about the report\<close>

lemma show_nat_digit: "n < 10 \<Longrightarrow> show_nat n = [''0123456789'' ! n]"
  by (simp add: show_nat.simps)

lemma format_f_one: "format_f (Suc 0) 1 = ''1.0''"
  by (simp add: format_f_def round_half_even_def zero_pad_def show_nat_digit)





lemma py_next_enumerate:
  "x \<in> set xs \<Longrightarrow> P x \<Longrightarrow>
     \<exists>i. py_next (map fst (filter (\<lambda>p. P (snd p)) (enumerate n xs))) = Inr i \<and>
         n \<le> i \<and> i < n + length xs \<and> P (xs ! (i - n))"
proof (induction xs arbitrary: n)
  case Nil
  then show ?case by simp
next
  case (Cons y ys)
  show ?case
  proof (cases "P y")
    case True
    then show ?thesis by simp
  next
    case False
    then have "x \<in> set ys" using Cons.prems by auto
    from Cons.IH [OF this Cons.prems(2), of "Suc n"] obtain i where
      i: "py_next (map fst (filter (\<lambda>p. P (snd p)) (enumerate (Suc n) ys))) = Inr i"
         "Suc n \<le> i" "i < Suc n + length ys" "P (ys ! (i - Suc n))" by blast
    have "(y # ys) ! (i - n) = ys ! (i - Suc n)"
      using i(2) by (simp add: nth_Cons split: nat.splits) (metis Suc_diff_Suc Suc_le_lessD nat.inject)
    then show ?thesis using i False by auto
  qed
qed

lemma sorted_key_head_least:
  assumes "sort_key f xs = y # ys" and "x \<in> set xs"
  shows "f y \<le> f x"
proof -
  have "sorted (map f (y # ys))" using assms(1) by (metis sorted_sort_key)
  moreover have "x \<in> set (y # ys)" using assms by (metis set_sort)
  ultimately show ?thesis by auto
qed

text \<open>
  Claim C7. For a benchmark group (a dict, so its keys are distinct): without a \<^verbatim>\<open>lumen\<close>
  entry the rank computation contributes nothing; with one it yields the 1-based position
  of \<^verbatim>\<open>lumen\<close> among the languages sorted ascending by median, the number of languages
  of the group, and the ratio of the median of \<^verbatim>\<open>lumen\<close> to the least median of the group,
  replaced by 0 when that least median is not strictly positive.
\<close>

theorem lumen_rank_of_group:
  assumes "distinct (map fst langs)"
  shows "(map_of langs ''lumen'' = None \<longrightarrow> lumen_rank_of (bench, langs) = Inr None)
       \<and> (\<forall>ls. map_of langs ''lumen'' = Some ls \<longrightarrow>
            (\<exists>rank fastest fs.
               lumen_rank_of (bench, langs)
               = Inr (Some (bench, rank, length langs,
                            (if 0 < median fs then median ls / median fs else 0), fastest))
               \<and> 1 \<le> rank \<and> rank \<le> length langs
               \<and> sort_key (\<lambda>x. median (snd x)) langs ! (rank - 1) = (''lumen'', ls)
               \<and> sorted (map (\<lambda>x. median (snd x)) (sort_key (\<lambda>x. median (snd x)) langs))
               \<and> (fastest, fs) \<in> set langs
               \<and> (\<forall>(l, s) \<in> set langs. median fs \<le> median s)))"
proof (intro conjI allI impI)
  assume "map_of langs ''lumen'' = None"
  then show "lumen_rank_of (bench, langs) = Inr None"
    by (simp add: lumen_rank_of_def)
next
  fix ls assume ls: "map_of langs ''lumen'' = Some ls"
  let ?f = "\<lambda>x::string \<times> language_stats. median (snd x)"
  let ?S = "sort_key ?f langs"
  let ?P = "\<lambda>x::string \<times> language_stats. fst x = ''lumen''"
  have mem: "(''lumen'', ls) \<in> set langs" using ls by (rule map_of_SomeD)
  then have memS: "(''lumen'', ls) \<in> set ?S" by simp
  have lenS: "length ?S = length langs" by simp
  from py_next_enumerate [of "(''lumen'', ls)" ?S ?P 1] memS obtain rank where
    r: "py_next (map fst (filter (\<lambda>p. ?P (snd p)) (enumerate 1 ?S))) = Inr rank"
       "1 \<le> rank" "rank < 1 + length ?S" "?P (?S ! (rank - 1))" by auto
  have flt: "(\<lambda>(i, name, s). name = ''lumen'') = (\<lambda>p::nat \<times> string \<times> language_stats. ?P (snd p))"
    by (auto simp: fun_eq_iff)
  have "?S ! (rank - 1) \<in> set langs"
    using r(2,3) lenS by (metis One_nat_def Suc_pred less_Suc_eq_le not_less nth_mem plus_1_eq_Suc set_sort le_imp_less_Suc less_eq_Suc_le)
  then have at: "?S ! (rank - 1) = (''lumen'', ls)"
    using r(4) assms mem by (metis eq_key_imp_eq_value prod.collapse)
  obtain fastest fs others where S: "?S = (fastest, fs) # others"
    using memS by (cases ?S) auto
  have fmem: "(fastest, fs) \<in> set langs"
    by (metis S list.set_intros(1) set_sort)
  have least: "\<forall>(l, s) \<in> set langs. median fs \<le> median s"
    using sorted_key_head_least [OF S] by fastforce
  have "lumen_rank_of (bench, langs)
        = Inr (Some (bench, rank, length langs,
                     (if 0 < median fs then median ls / median fs else 0), fastest))"
    using r(1) by (simp add: lumen_rank_of_def ls flt S [simplified] py_truediv_def Let_def
        flip: lenS)
  moreover have "sorted (map ?f ?S)" by (rule sorted_sort_key)
  ultimately show "\<exists>rank fastest fs.
               lumen_rank_of (bench, langs)
               = Inr (Some (bench, rank, length langs,
                            (if 0 < median fs then median ls / median fs else 0), fastest))
               \<and> 1 \<le> rank \<and> rank \<le> length langs
               \<and> sort_key (\<lambda>x. median (snd x)) langs ! (rank - 1) = (''lumen'', ls)
               \<and> sorted (map (\<lambda>x. median (snd x)) (sort_key (\<lambda>x. median (snd x)) langs))
               \<and> (fastest, fs) \<in> set langs
               \<and> (\<forall>(l, s) \<in> set langs. median fs \<le> median s)"
    using r(2,3) at fmem least lenS by (intro exI [of _ rank] exI [of _ fastest] exI [of _ fs]) simp
qed


text \<open>The statement of C7 on a group of three languages in which \<^verbatim>\<open>lumen\<close> is second.\<close>

theorem lumen_rank_of_group_witness:
  "distinct (map fst
     [(''c'', \<lparr>median = 10, mean = 10, min_ms = 10, max_ms = 10, stdev = 0, runs = 1\<rparr>),
      (''lumen'', \<lparr>median = 25, mean = 25, min_ms = 25, max_ms = 25, stdev = 0, runs = 1\<rparr>),
      (''py'', \<lparr>median = 100, mean = 100, min_ms = 100, max_ms = 100, stdev = 0, runs = 1\<rparr>)])
   \<and> lumen_rank_of (''fib'',
     [(''c'', \<lparr>median = 10, mean = 10, min_ms = 10, max_ms = 10, stdev = 0, runs = 1\<rparr>),
      (''lumen'', \<lparr>median = 25, mean = 25, min_ms = 25, max_ms = 25, stdev = 0, runs = 1\<rparr>),
      (''py'', \<lparr>median = 100, mean = 100, min_ms = 100, max_ms = 100, stdev = 0, runs = 1\<rparr>)])
     = Inr (Some (''fib'', 2, 3, 5 / 2, ''c''))
   \<and> lumen_rank_of (''sort'',
     [(''c'', \<lparr>median = 10, mean = 10, min_ms = 10, max_ms = 10, stdev = 0, runs = 1\<rparr>)])
     = Inr None"
proof -
  let ?langs = "[(''c'', \<lparr>median = 10, mean = 10, min_ms = 10, max_ms = 10, stdev = 0, runs = 1::nat\<rparr>),
      (''lumen'', \<lparr>median = 25, mean = 25, min_ms = 25, max_ms = 25, stdev = 0, runs = 1\<rparr>),
      (''py'', \<lparr>median = 100, mean = 100, min_ms = 100, max_ms = 100, stdev = 0, runs = 1\<rparr>)]"
  let ?only_c = "[(''c'', \<lparr>median = 10, mean = 10, min_ms = 10, max_ms = 10, stdev = 0, runs = 1::nat\<rparr>)]"
  have d: "distinct (map fst ?langs)" and d': "distinct (map fst ?only_c)" by simp_all
  have e: "lumen_rank_of (''fib'', ?langs) = Inr (Some (''fib'', 2, 3, 5 / 2, ''c''))"
    by (simp add: lumen_rank_of_def py_truediv_def)
  show ?thesis
    using d e lumen_rank_of_group [OF d, of "''fib''"] lumen_rank_of_group [OF d', of "''sort''"]
    by simp
qed

lemma lumen_rank_of_absent:
  "map_of langs ''lumen'' = None \<Longrightarrow> lumen_rank_of (bench, langs) = Inr None"
  by (simp add: lumen_rank_of_def)

lemma lumen_ranks_of_absent:
  assumes "\<forall>item\<in>set data. map_of (snd item) ''lumen'' = None"
  shows "lumen_ranks_of data = Inr []"
proof -
  have "map_result lumen_rank_of (sort_key fst data) = Inr (map (\<lambda>item. None) (sort_key fst data))"
  proof (rule map_result_Inr)
    fix x assume "x \<in> set (sort_key fst data)"
    then have "map_of (snd x) ''lumen'' = None" using assms by simp
    then show "lumen_rank_of x = Inr None"
      using lumen_rank_of_absent [of "snd x" "fst x"] by simp
  qed
  moreover have "List.map_filter (\<lambda>x. x) (map (\<lambda>item. None) xs) = ([] :: lumen_rank list)"
    for xs :: "(string \<times> bench_data) list"
    by (induction xs) (simp_all add: List.map_filter_simps)
  ultimately show ?thesis by (simp add: lumen_ranks_of_def)
qed


























end
